theory Spec2Isabelle
  imports Complex_Main
begin

section \<open>The ti/tv counter of \<^verbatim>\<open>PyVCF_titv/titv.py\<close>\<close>

text \<open>
  The script keeps three module-level counters, reads the records of each VCF file through
  the PyVCF reader, and prints progress and summary lines. Python integers are unbounded,
  so every counter is an \<open>int\<close>. An exception that nothing catches ends the run; it is a
  value of \<open>exn\<close>, returned next to the state reached when it was raised.
\<close>

subsection \<open>Data\<close>

text \<open>
  The two attributes of a PyVCF record that the script reads (\<^verbatim>\<open>rec.is_snp\<close>,
  \<^verbatim>\<open>rec.is_transition\<close>). The library computes them; the script only tests them.
\<close>

record vcf_record =
  is_snp :: bool
  is_transition :: bool

datatype exn = ZeroDivisionError | StopIteration | SystemExit int

text \<open>
  What the script writes to standard output, one constructor per format string:
  \<^item> \<open>Processing fname\<close>: \<^verbatim>\<open>"Processing VCF file {}"\<close>;
  \<^item> \<open>Progress i tot ti tv ratio\<close>: \<^verbatim>\<open>"num records={}  tot={} ti={}  tv={}  ti/tv={}"\<close>;
  \<^item> \<open>Totals tot ti tv ratio\<close>: \<^verbatim>\<open>"tot={} ti={}  tv={}  ti/tv={}"\<close>;
  \<^item> \<open>MustSpecify\<close>: \<^verbatim>\<open>"must specify VCF file"\<close>;
  \<^item> \<open>Flush\<close>: the call \<^verbatim>\<open>sys.stdout.flush()\<close>.
  The ratio \<^verbatim>\<open>float(ti) / float(tv)\<close> is kept as the exact quotient; the rounding of
  the floating-point division is not modelled.
\<close>

datatype out_event =
    Processing string
  | Progress int int int int rat
  | Totals int int int rat
  | MustSpecify
  | Flush

text \<open>The globals \<^verbatim>\<open>ti\<close>, \<^verbatim>\<open>tv\<close>, \<^verbatim>\<open>num_records\<close> (lines 7-9) and the output so far.\<close>

record globals =
  ti :: int
  tv :: int
  num_records :: int
  stdout :: "out_event list"

definition init :: globals where
  "init = \<lparr>ti = 0, tv = 0, num_records = 0, stdout = []\<rparr>"

subsection \<open>Operations\<close>

text \<open>Lines 14-21.\<close>

definition account_rec_native :: "vcf_record \<Rightarrow> globals \<Rightarrow> globals" where
  "account_rec_native r g =
     (if \<not> is_snp r then g
      else if is_transition r then g\<lparr>ti := ti g + 1\<rparr>
      else g\<lparr>tv := tv g + 1\<rparr>)"

text \<open>
  Lines 23-29. The division comes first: with \<^verbatim>\<open>tv == 0\<close> it raises
  \<^verbatim>\<open>ZeroDivisionError\<close> before anything is printed.
\<close>

definition print_totals :: "int option \<Rightarrow> globals \<Rightarrow> exn option \<times> globals" where
  "print_totals i g =
     (if tv g = 0 then (Some ZeroDivisionError, g)
      else
        let ratio = of_int (ti g) / of_int (tv g) in
        (None, g\<lparr>stdout := stdout g @
           [case i of
              Some n \<Rightarrow> Progress n (num_records g) (ti g) (tv g) ratio
            | None \<Rightarrow> Totals (num_records g) (ti g) (tv g) ratio,
            Flush]\<rparr>))"

text \<open>
  The \<^verbatim>\<open>while True\<close> loop of \<^verbatim>\<open>process_file\<close> (lines 38-47), started at the local
  counter \<open>i\<close> on the records the reader has not yet returned. \<^verbatim>\<open>vcf_reader.next()\<close>
  returns the next record, or raises \<^verbatim>\<open>StopIteration\<close> at the end of the stream; the
  loop does not catch it.
\<close>

fun loop :: "int \<Rightarrow> int option \<Rightarrow> vcf_record list \<Rightarrow> globals \<Rightarrow> exn option \<times> globals" where
  "loop i nlimit recs g =
     (let g1 = g\<lparr>num_records := num_records g + 1\<rparr>;
          i1 = i + 1;
          printed = (if i1 mod 1000 = 0 then print_totals (Some i1) g1 else (None, g1))
      in case printed of
           (Some e, g2) \<Rightarrow> (Some e, g2)
         | (None, g2) \<Rightarrow>
             if (case nlimit of None \<Rightarrow> False | Some n \<Rightarrow> i1 \<ge> n) then (None, g2)
             else (case recs of
                     [] \<Rightarrow> (Some StopIteration, g2)
                   | r # rest \<Rightarrow> loop i1 nlimit rest (account_rec_native r g2)))"

declare loop.simps [simp del]

text \<open>
  Lines 32-47. The file named \<open>fname\<close> is given by the records its reader yields.
\<close>

definition process_file ::
  "string \<Rightarrow> int option \<Rightarrow> vcf_record list \<Rightarrow> globals \<Rightarrow> exn option \<times> globals" where
  "process_file fname nlimit recs g =
     loop 0 nlimit recs (g\<lparr>stdout := stdout g @ [Processing fname]\<rparr>)"

text \<open>The \<^verbatim>\<open>for fname in args.filenames\<close> loop (lines 62-63).\<close>

fun process_all ::
  "(string \<times> vcf_record list) list \<Rightarrow> int option \<Rightarrow> globals \<Rightarrow> exn option \<times> globals" where
  "process_all [] nlimit g = (None, g)"
| "process_all ((fname, recs) # files) nlimit g =
     (case process_file fname nlimit recs g of
        (Some e, g') \<Rightarrow> (Some e, g')
      | (None, g') \<Rightarrow> process_all files nlimit g')"

text \<open>
  The script as a whole (lines 49-65): the \<^verbatim>\<open>--file\<close> arguments, each with the records
  of the file it names, and the \<^verbatim>\<open>--nlimit\<close> argument.
\<close>

definition main :: "(string \<times> vcf_record list) list \<Rightarrow> int option \<Rightarrow> exn option \<times> globals" where
  "main filenames nlimit =
     (if filenames = [] then (Some (SystemExit 1), init\<lparr>stdout := [MustSpecify]\<rparr>)
      else (case process_all filenames nlimit init of
              (Some e, g) \<Rightarrow> (Some e, g)
            | (None, g) \<Rightarrow> print_totals None g))"

subsection \<open>The record source\<close>

text \<open>
  Modelled from the spec: the PyVCF library, which computes \<^verbatim>\<open>is_snp\<close> and
  \<^verbatim>\<open>is_transition\<close> from the alleles of a record, is not among the sources. Section 3
  of the specification accepts the four nucleotide symbols A, C, G and T in either case.
\<close>

definition is_base :: "char \<Rightarrow> bool" where
  "is_base c = (c \<in> set ''ACGTacgt'')"

text \<open>
  Modelled from the spec: the case-insensitive reading of a nucleotide symbol (sections 3
  and 4.1), which PyVCF would do and which is not among the sources.
\<close>

definition upper_base :: "char \<Rightarrow> char" where
  "upper_base c =
     (if c = CHR ''a'' then CHR ''A''
      else if c = CHR ''c'' then CHR ''C''
      else if c = CHR ''g'' then CHR ''G''
      else if c = CHR ''t'' then CHR ''T''
      else c)"

text \<open>
  Modelled from the spec: the attribute \<^verbatim>\<open>is_snp\<close> of a PyVCF record, absent from the
  sources. Section 3: true iff the reference allele has length 1, the considered alternate
  allele (the first one, section 4.1) has length 1, and both are nucleotide symbols.
\<close>

definition alleles_is_snp :: "string \<Rightarrow> string list \<Rightarrow> bool" where
  "alleles_is_snp ref alts =
     (case alts of
        [] \<Rightarrow> False
      | alt # _ \<Rightarrow>
          length ref = 1 \<and> length alt = 1 \<and> list_all is_base ref \<and> list_all is_base alt)"

text \<open>
  Modelled from the spec: the attribute \<^verbatim>\<open>is_transition\<close> of a PyVCF record, absent from
  the sources. Section 4.1 and the glossary: a SNP is a transition for the pairs A/G and C/T
  in either direction; every other pair of nucleotides is a transversion.
\<close>

definition alleles_is_transition :: "string \<Rightarrow> string list \<Rightarrow> bool" where
  "alleles_is_transition ref alts =
     (case alts of
        [] \<Rightarrow> False
      | alt # _ \<Rightarrow>
          alleles_is_snp ref alts \<and>
          (map upper_base ref, map upper_base alt) \<in>
            set [(''A'', ''G''), (''G'', ''A''), (''C'', ''T''), (''T'', ''C'')])"

text \<open>
  Modelled from the spec: the record that the PyVCF reader, absent from the sources, builds
  for a line with reference allele \<open>ref\<close> and alternate alleles \<open>alts\<close>.
\<close>

definition pyvcf_record :: "string \<Rightarrow> string list \<Rightarrow> vcf_record" where
  "pyvcf_record ref alts =
     \<lparr>is_snp = alleles_is_snp ref alts, is_transition = alleles_is_transition ref alts\<rparr>"

subsection \<open>Inputs of the scenarios\<close>

text \<open>
  A record that the reader reports as a SNP and a transition, such as (A,G), and one that
  it reports as a SNP and not a transition, such as (G,T).
\<close>

definition transition_snp :: vcf_record where
  "transition_snp = \<lparr>is_snp = True, is_transition = True\<rparr>"

definition transversion_snp :: vcf_record where
  "transversion_snp = \<lparr>is_snp = True, is_transition = False\<rparr>"

text \<open>
  A record that the reader reports as not a SNP, such as the deletion (AT,A).
\<close>

definition non_snp :: vcf_record where
  "non_snp = \<lparr>is_snp = False, is_transition = False\<rparr>"

text \<open>A file of \<open>2 * n\<close> SNP records alternating transition and transversion.\<close>

definition alternating :: "nat \<Rightarrow> vcf_record list" where
  "alternating n = concat (replicate n [transition_snp, transversion_snp])"

subsection \<open>The progress lines of a file\<close>






section \<open>Properties\<close>

subsection \<open>One iteration of the loop\<close>

lemma loop_step:
  "loop i nlimit recs g =
     (case (if (i + 1) mod 1000 = 0
            then print_totals (Some (i + 1)) (g\<lparr>num_records := num_records g + 1\<rparr>)
            else (None, g\<lparr>num_records := num_records g + 1\<rparr>)) of
        (Some e, g2) \<Rightarrow> (Some e, g2)
      | (None, g2) \<Rightarrow>
          if (case nlimit of None \<Rightarrow> False | Some n \<Rightarrow> i + 1 \<ge> n) then (None, g2)
          else (case recs of
                  [] \<Rightarrow> (Some StopIteration, g2)
                | r # rest \<Rightarrow> loop (i + 1) nlimit rest (account_rec_native r g2)))"
  by (subst loop.simps) (simp add: Let_def)

lemma loop_Nil:
  "loop i nlimit [] g =
     (case (if (i + 1) mod 1000 = 0
            then print_totals (Some (i + 1)) (g\<lparr>num_records := num_records g + 1\<rparr>)
            else (None, g\<lparr>num_records := num_records g + 1\<rparr>)) of
        (Some e, g2) \<Rightarrow> (Some e, g2)
      | (None, g2) \<Rightarrow>
          if (case nlimit of None \<Rightarrow> False | Some n \<Rightarrow> i + 1 \<ge> n) then (None, g2)
          else (Some StopIteration, g2))"
  by (simp add: loop_step [of _ _ "[]"] split: prod.splits option.splits)

lemma loop_Cons:
  "loop i nlimit (r # rest) g =
     (case (if (i + 1) mod 1000 = 0
            then print_totals (Some (i + 1)) (g\<lparr>num_records := num_records g + 1\<rparr>)
            else (None, g\<lparr>num_records := num_records g + 1\<rparr>)) of
        (Some e, g2) \<Rightarrow> (Some e, g2)
      | (None, g2) \<Rightarrow>
          if (case nlimit of None \<Rightarrow> False | Some n \<Rightarrow> i + 1 \<ge> n) then (None, g2)
          else loop (i + 1) nlimit rest (account_rec_native r g2))"
  by (simp add: loop_step [of _ _ "r # rest"] split: prod.splits option.splits)

subsection \<open>The counters\<close>

lemma account_rec_native_counts:
  "ti g + tv g \<le> ti (account_rec_native r g) + tv (account_rec_native r g)"
  "ti (account_rec_native r g) + tv (account_rec_native r g) \<le> ti g + tv g + 1"
  "num_records (account_rec_native r g) = num_records g"
  "stdout (account_rec_native r g) = stdout g"
  by (simp_all add: account_rec_native_def)

lemma print_totals_counters:
  "ti (snd (print_totals i g)) = ti g"
  "tv (snd (print_totals i g)) = tv g"
  "num_records (snd (print_totals i g)) = num_records g"
  by (simp_all add: print_totals_def Let_def)

lemma loop_inv:
  "ti g + tv g \<le> num_records g \<Longrightarrow>
   ti (snd (loop i nlimit recs g)) + tv (snd (loop i nlimit recs g))
     \<le> num_records (snd (loop i nlimit recs g))"
proof (induction recs arbitrary: i g)
  case Nil
  then show ?case
    by (simp add: loop_step [of _ _ "[]"] print_totals_def Let_def split: option.splits)
next
  case (Cons r rest)
  let ?g1 = "g\<lparr>num_records := num_records g + 1\<rparr>"
  let ?p = "if (i + 1) mod 1000 = 0 then print_totals (Some (i + 1)) ?g1 else (None, ?g1)"
  obtain e g2 where p: "?p = (e, g2)"
    by (cases ?p)
  have "g2 = snd ?p"
    by (simp add: p)
  then have g2: "ti g2 = ti g" "tv g2 = tv g" "num_records g2 = num_records g + 1"
    by (simp_all add: print_totals_counters)
  have acc: "ti (account_rec_native r g2) + tv (account_rec_native r g2)
               \<le> num_records (account_rec_native r g2)"
    using account_rec_native_counts(2,3) [of r g2] g2 Cons.prems by linarith
  show ?case
  proof (cases e)
    case (Some x)
    with p g2 Cons.prems show ?thesis
      by (simp add: loop_step [of _ _ "r # rest"])
  next
    case None
    show ?thesis
    proof (cases "case nlimit of None \<Rightarrow> False | Some n \<Rightarrow> i + 1 \<ge> n")
      case True
      with p None g2 Cons.prems show ?thesis
        by (simp add: loop_step [of _ _ "r # rest"])
    next
      case False
      with p None
      have "loop i nlimit (r # rest) g = loop (i + 1) nlimit rest (account_rec_native r g2)"
        by (simp add: loop_step [of _ _ "r # rest"])
      with Cons.IH [OF acc] show ?thesis
        by simp
    qed
  qed
qed

lemma process_file_inv:
  "ti g + tv g \<le> num_records g \<Longrightarrow>
   ti (snd (process_file fname nlimit recs g)) + tv (snd (process_file fname nlimit recs g))
     \<le> num_records (snd (process_file fname nlimit recs g))"
  unfolding process_file_def by (rule loop_inv) simp

lemma process_all_inv:
  "ti g + tv g \<le> num_records g \<Longrightarrow>
   ti (snd (process_all files nlimit g)) + tv (snd (process_all files nlimit g))
     \<le> num_records (snd (process_all files nlimit g))"
proof (induction files arbitrary: g)
  case Nil
  then show ?case by simp
next
  case (Cons f files)
  obtain fname recs where f: "f = (fname, recs)"
    by (cases f)
  obtain e g' where pf: "process_file fname nlimit recs g = (e, g')"
    by (cases "process_file fname nlimit recs g")
  from process_file_inv [OF Cons.prems, of fname nlimit recs] pf
  have g': "ti g' + tv g' \<le> num_records g'"
    by simp
  show ?case
  proof (cases e)
    case None
    with f pf Cons.IH [OF g'] show ?thesis
      by simp
  next
    case (Some x)
    with f pf g' show ?thesis
      by simp
  qed
qed

lemma main_inv:
  "ti (snd (main filenames nlimit)) + tv (snd (main filenames nlimit))
     \<le> num_records (snd (main filenames nlimit))"
proof -
  have i0: "ti init + tv init \<le> num_records init"
    by (simp add: init_def)
  obtain e g where pa: "process_all filenames nlimit init = (e, g)"
    by (cases "process_all filenames nlimit init")
  with process_all_inv [OF i0, of filenames nlimit]
  have "ti g + tv g \<le> num_records g"
    by simp
  with pa show ?thesis
    by (cases e) (simp_all add: main_def init_def print_totals_counters)
qed

text \<open>
  C2. The inequality \<open>ti + tv \<le> num_records\<close> holds in the state in which any run of the
  script ends, whatever the files and the limit, whether it ends normally or on an
  exception. It is an invariant of the loop: a state that satisfies it is taken to one that
  satisfies it by the processing of one record (\<^verbatim>\<open>num_records\<close> grows by one, \<^verbatim>\<open>ti\<close> and
  \<^verbatim>\<open>tv\<close> together by at most one) and by any run of the loop.
\<close>

theorem counters_bounded:
  "(ti (snd (main filenames nlimit)) + tv (snd (main filenames nlimit))
      \<le> num_records (snd (main filenames nlimit))) \<and>
   (ti g + tv g \<le> num_records g \<longrightarrow>
      ti (account_rec_native r (g\<lparr>num_records := num_records g + 1\<rparr>)) +
      tv (account_rec_native r (g\<lparr>num_records := num_records g + 1\<rparr>))
        \<le> num_records (account_rec_native r (g\<lparr>num_records := num_records g + 1\<rparr>)) \<and>
      ti (snd (loop i nlimit recs g)) + tv (snd (loop i nlimit recs g))
        \<le> num_records (snd (loop i nlimit recs g)))"
  using main_inv [of filenames nlimit] loop_inv [of g i nlimit recs]
  by (simp add: account_rec_native_def)

theorem counters_bounded_witness:
  "ti init + tv init \<le> num_records init \<and>
   account_rec_native transition_snp (init\<lparr>num_records := num_records init + 1\<rparr>) =
     \<lparr>ti = 1, tv = 0, num_records = 1, stdout = []\<rparr> \<and>
   ti (snd (loop 0 None [transition_snp] init)) + tv (snd (loop 0 None [transition_snp] init))
     \<le> num_records (snd (loop 0 None [transition_snp] init)) \<and>
   ti (snd (main [(''a.vcf'', [transition_snp])] None)) +
   tv (snd (main [(''a.vcf'', [transition_snp])] None))
     \<le> num_records (snd (main [(''a.vcf'', [transition_snp])] None))"
  using counters_bounded [of "[(''a.vcf'', [transition_snp])]" None init transition_snp 0
      "[transition_snp]"]
  by (simp add: init_def account_rec_native_def transition_snp_def)

subsection \<open>The snapshot\<close>

text \<open>
  C10. With \<open>tv \<noteq> 0\<close>, \<^verbatim>\<open>print_totals\<close> returns normally and leaves \<^verbatim>\<open>ti\<close>, \<^verbatim>\<open>tv\<close> and
  \<^verbatim>\<open>num_records\<close> as they were; it only appends a line and a flush to the output, and a
  second call right after the first appends the very same line again.
\<close>

theorem snapshot_pure:
  "tv g \<noteq> 0 \<Longrightarrow>
   fst (print_totals i g) = None \<and>
   ti (snd (print_totals i g)) = ti g \<and>
   tv (snd (print_totals i g)) = tv g \<and>
   num_records (snd (print_totals i g)) = num_records g \<and>
   (\<exists>l. stdout (snd (print_totals i g)) = stdout g @ [l, Flush] \<and>
        print_totals i (snd (print_totals i g)) =
          (None, g\<lparr>stdout := stdout g @ [l, Flush] @ [l, Flush]\<rparr>))"
  by (cases i) (simp_all add: print_totals_def Let_def)

theorem snapshot_pure_witness:
  "tv \<lparr>ti = 2, tv = 1, num_records = 4, stdout = []\<rparr> \<noteq> 0 \<and>
   print_totals None \<lparr>ti = 2, tv = 1, num_records = 4, stdout = []\<rparr> =
     (None, \<lparr>ti = 2, tv = 1, num_records = 4, stdout = [Totals 4 2 1 2, Flush]\<rparr>) \<and>
   print_totals None (snd (print_totals None \<lparr>ti = 2, tv = 1, num_records = 4, stdout = []\<rparr>)) =
     (None, \<lparr>ti = 2, tv = 1, num_records = 4,
        stdout = [Totals 4 2 1 2, Flush, Totals 4 2 1 2, Flush]\<rparr>)"
  using snapshot_pure [of "\<lparr>ti = 2, tv = 1, num_records = 4, stdout = []\<rparr>" None]
  by (simp add: print_totals_def)

subsection \<open>Classification of a record\<close>

lemma base_cases:
  "x \<in> set ''ACGT'' \<Longrightarrow> x = CHR ''A'' \<or> x = CHR ''C'' \<or> x = CHR ''G'' \<or> x = CHR ''T''"
  by simp

lemma pyvcf_record_pair:
  "pyvcf_record [x] [[y]] =
     \<lparr>is_snp = is_base x \<and> is_base y,
      is_transition = (is_base x \<and> is_base y \<and>
        (upper_base x, upper_base y) \<in>
          set [(CHR ''A'', CHR ''G''), (CHR ''G'', CHR ''A''),
               (CHR ''C'', CHR ''T''), (CHR ''T'', CHR ''C'')])\<rparr>"
  by (simp add: pyvcf_record_def alleles_is_snp_def alleles_is_transition_def)

text \<open>
  C1. For two different letters \<open>x\<close>, \<open>y\<close> among A, C, G, T, accounting the record with
  reference \<open>x\<close> and alternate \<open>y\<close> adds one to exactly one counter: to \<^verbatim>\<open>ti\<close> when the pair
  is A/G or C/T (in either order), to \<^verbatim>\<open>tv\<close> for every other pair; and the record with the
  alleles swapped is accounted the same way. The attributes of the record are those the
  specification ascribes to the record source.
\<close>

theorem classification_table:
  "x \<in> set ''ACGT'' \<Longrightarrow> y \<in> set ''ACGT'' \<Longrightarrow> x \<noteq> y \<Longrightarrow>
   account_rec_native (pyvcf_record [x] [[y]]) g =
     (if {x, y} = {CHR ''A'', CHR ''G''} \<or> {x, y} = {CHR ''C'', CHR ''T''}
      then g\<lparr>ti := ti g + 1\<rparr> else g\<lparr>tv := tv g + 1\<rparr>) \<and>
   account_rec_native (pyvcf_record [x] [[y]]) g = account_rec_native (pyvcf_record [y] [[x]]) g"
proof -
  assume x: "x \<in> set ''ACGT''" and y: "y \<in> set ''ACGT''" and ne: "x \<noteq> y"
  from base_cases [OF x] base_cases [OF y] ne show ?thesis
    by (elim disjE) (simp_all add: pyvcf_record_pair account_rec_native_def is_base_def
        upper_base_def doubleton_eq_iff)
qed

theorem classification_table_witness:
  "CHR ''A'' \<in> set ''ACGT'' \<and> CHR ''G'' \<in> set ''ACGT'' \<and> CHR ''A'' \<noteq> CHR ''G'' \<and>
   account_rec_native (pyvcf_record ''A'' [''G'']) init = init\<lparr>ti := 1\<rparr> \<and>
   account_rec_native (pyvcf_record ''G'' [''A'']) init = init\<lparr>ti := 1\<rparr>"
  using classification_table [of "CHR ''A''" "CHR ''G''" init]
  by (simp add: init_def account_rec_native_def pyvcf_record_pair is_base_def upper_base_def)

text \<open>
  C9, as claimed, fails where the two alleles are the same nucleotide: the record (A,A) is
  a SNP for the record source and not a transition, and the \<^verbatim>\<open>else\<close> branch of
  \<^verbatim>\<open>account_rec_native\<close> counts it as a transversion.
\<close>

theorem same_allele_counterexample:
  "is_snp (pyvcf_record ''A'' [''A'']) \<and>
   account_rec_native (pyvcf_record ''A'' [''A'']) init = init\<lparr>tv := 1\<rparr>"
  by (simp add: account_rec_native_def pyvcf_record_pair is_base_def upper_base_def init_def)

lemma loop_non_snp:
  "\<forall>r \<in> set recs. \<not> is_snp r \<Longrightarrow>
   ti (snd (loop i nlimit recs g)) = ti g \<and> tv (snd (loop i nlimit recs g)) = tv g"
proof (induction recs arbitrary: i g)
  case Nil
  let ?p = "if (i + 1) mod 1000 = 0
    then print_totals (Some (i + 1)) (g\<lparr>num_records := num_records g + 1\<rparr>)
    else (None, g\<lparr>num_records := num_records g + 1\<rparr>)"
  obtain e g2 where p: "?p = (e, g2)"
    by (cases ?p)
  have "g2 = snd ?p"
    by (simp add: p)
  then have g2: "ti g2 = ti g" "tv g2 = tv g"
    by (simp_all add: print_totals_counters)
  show ?case
    unfolding loop_Nil p using g2 by (cases e) simp_all
next
  case (Cons r rest)
  let ?p = "if (i + 1) mod 1000 = 0
    then print_totals (Some (i + 1)) (g\<lparr>num_records := num_records g + 1\<rparr>)
    else (None, g\<lparr>num_records := num_records g + 1\<rparr>)"
  obtain e g2 where p: "?p = (e, g2)"
    by (cases ?p)
  have "g2 = snd ?p"
    by (simp add: p)
  then have g2: "ti g2 = ti g" "tv g2 = tv g"
    by (simp_all add: print_totals_counters)
  have r: "account_rec_native r g2 = g2"
    using Cons.prems by (simp add: account_rec_native_def)
  have rest: "\<forall>r \<in> set rest. \<not> is_snp r"
    using Cons.prems by simp
  show ?case
    unfolding loop_Cons p using g2 r Cons.IH [OF rest, of "i + 1" g2]
    by (cases e) simp_all
qed

lemma loop_num_records_grows:
  "num_records g < num_records (snd (loop i nlimit recs g))"
proof (induction recs arbitrary: i g)
  case Nil
  let ?p = "if (i + 1) mod 1000 = 0
    then print_totals (Some (i + 1)) (g\<lparr>num_records := num_records g + 1\<rparr>)
    else (None, g\<lparr>num_records := num_records g + 1\<rparr>)"
  obtain e g2 where p: "?p = (e, g2)"
    by (cases ?p)
  have "g2 = snd ?p"
    by (simp add: p)
  then have g2: "num_records g2 = num_records g + 1"
    by (simp add: print_totals_counters)
  show ?case
    unfolding loop_Nil p using g2 by (cases e) simp_all
next
  case (Cons r rest)
  let ?p = "if (i + 1) mod 1000 = 0
    then print_totals (Some (i + 1)) (g\<lparr>num_records := num_records g + 1\<rparr>)
    else (None, g\<lparr>num_records := num_records g + 1\<rparr>)"
  obtain e g2 where p: "?p = (e, g2)"
    by (cases ?p)
  have "g2 = snd ?p"
    by (simp add: p)
  then have g2: "num_records g2 = num_records g + 1"
    by (simp add: print_totals_counters)
  have "num_records (account_rec_native r g2) < num_records (snd (loop (i + 1) nlimit rest (account_rec_native r g2)))"
    by (rule Cons.IH)
  then have "num_records g < num_records (snd (loop (i + 1) nlimit rest (account_rec_native r g2)))"
    using g2 by (simp add: account_rec_native_counts)
  then show ?case
    unfolding loop_Cons p using g2 by (cases e) simp_all
qed

text \<open>
  C9, amended. The script never reads the alleles: whether a record is a SNP is the answer
  of the record source. Accounting a record leaves the counters as they were exactly when
  its \<^verbatim>\<open>is_snp\<close> is false; and a file all of whose records have \<^verbatim>\<open>is_snp\<close> false is
  processed, with any limit, without any change to \<^verbatim>\<open>ti\<close> or \<^verbatim>\<open>tv\<close>, while
  \<^verbatim>\<open>num_records\<close> grows.
\<close>

theorem non_snp_not_counted:
  "(account_rec_native r g = g \<longleftrightarrow> \<not> is_snp r) \<and>
   ((\<forall>r \<in> set recs. \<not> is_snp r) \<longrightarrow>
      ti (snd (process_file fname nlimit recs g)) = ti g \<and>
      tv (snd (process_file fname nlimit recs g)) = tv g \<and>
      num_records g < num_records (snd (process_file fname nlimit recs g)))"
proof -
  have a: "account_rec_native r g = g \<longleftrightarrow> \<not> is_snp r"
  proof (cases "is_snp r")
    case True
    have "ti (account_rec_native r g) + tv (account_rec_native r g) = ti g + tv g + 1"
      using True by (simp add: account_rec_native_def)
    then have "account_rec_native r g \<noteq> g"
      by auto
    with True show ?thesis by simp
  next
    case False
    then show ?thesis by (simp add: account_rec_native_def)
  qed
  have b: "ti (snd (process_file fname nlimit recs g)) = ti g \<and>
      tv (snd (process_file fname nlimit recs g)) = tv g"
    if "\<forall>r \<in> set recs. \<not> is_snp r"
    unfolding process_file_def using loop_non_snp [OF that] by simp
  have c: "num_records g < num_records (snd (process_file fname nlimit recs g))"
    unfolding process_file_def
    using loop_num_records_grows [of "g\<lparr>stdout := stdout g @ [Processing fname]\<rparr>"] by simp
  from a b c show ?thesis by blast
qed

theorem non_snp_not_counted_witness:
  "\<not> is_snp non_snp \<and>
   account_rec_native non_snp init = init \<and>
   account_rec_native transversion_snp init \<noteq> init \<and>
   process_file ''indel.vcf'' None [non_snp, non_snp] init =
     (Some StopIteration,
      \<lparr>ti = 0, tv = 0, num_records = 3, stdout = [Processing ''indel.vcf'']\<rparr>)"
  using non_snp_not_counted [of non_snp init "[non_snp, non_snp]" "''indel.vcf''" None]
    non_snp_not_counted [of transversion_snp init "[]" "''indel.vcf''" None]
  by (simp add: non_snp_def transversion_snp_def process_file_def loop_Nil loop_Cons init_def
      account_rec_native_def)

subsection \<open>Runs that end on an exception\<close>

lemma print_totals_zero:
  "tv g = 0 \<Longrightarrow> print_totals i g = (Some ZeroDivisionError, g)"
  by (simp add: print_totals_def)

lemma loop_no_limit_raises: "fst (loop i None recs g) \<noteq> None"
proof (induction recs arbitrary: i g)
  case Nil
  show ?case
    by (simp add: loop_Nil split: prod.splits option.splits)
next
  case (Cons r rest)
  show ?case
    using Cons.IH by (simp add: loop_Cons split: prod.splits option.splits)
qed

lemma no_limit_never_summarises:
  "fst (process_file fname None recs g) \<noteq> None"
  "main ((fname, recs) # files) None = process_file fname None recs init"
proof -
  show a: "fst (process_file fname None recs g) \<noteq> None" for g
    unfolding process_file_def by (rule loop_no_limit_raises)
  obtain e g' where pf: "process_file fname None recs init = (e, g')"
    by (cases "process_file fname None recs init")
  with a [of init] obtain x where "e = Some x"
    by (cases e) auto
  with pf show "main ((fname, recs) # files) None = process_file fname None recs init"
    by (simp add: main_def)
qed

text \<open>
  C3. A file of two transition SNPs, read with \<^verbatim>\<open>--nlimit 3\<close>: the final call of
  \<^verbatim>\<open>print_totals\<close> finds \<open>tv = 0\<close>, and the run ends on \<^verbatim>\<open>ZeroDivisionError\<close> with no
  summary line printed.
\<close>

theorem zero_transversions_crash:
  "main [(''ti.vcf'', [transition_snp, transition_snp])] (Some 3) =
     (Some ZeroDivisionError,
      \<lparr>ti = 2, tv = 0, num_records = 3, stdout = [Processing ''ti.vcf'']\<rparr>)"
  by (simp add: main_def process_file_def loop_Nil loop_Cons init_def account_rec_native_def
      transition_snp_def print_totals_def)

text \<open>
  C5. A file of one transition and one transversion, read without a limit: the third call
  of \<^verbatim>\<open>vcf_reader.next()\<close> raises \<^verbatim>\<open>StopIteration\<close>, nothing catches it, and the run
  ends before the summary line is printed.
\<close>

theorem end_of_stream_no_summary:
  "main [(''a.vcf'', [transition_snp, transversion_snp])] None =
     (Some StopIteration,
      \<lparr>ti = 1, tv = 1, num_records = 3, stdout = [Processing ''a.vcf'']\<rparr>)"
  by (simp add: main_def process_file_def loop_Nil loop_Cons init_def account_rec_native_def
      transition_snp_def transversion_snp_def print_totals_def)

subsection \<open>Runs of the loop without a progress line\<close>

lemma account_rec_native_update:
  "account_rec_native r (g\<lparr>num_records := n\<rparr>) = (account_rec_native r g)\<lparr>num_records := n\<rparr>"
  "account_rec_native r (g\<lparr>stdout := out\<rparr>) = (account_rec_native r g)\<lparr>stdout := out\<rparr>"
  by (simp_all add: account_rec_native_def)

lemma fold_account_update:
  "fold account_rec_native rs (g\<lparr>num_records := n\<rparr>) =
     (fold account_rec_native rs g)\<lparr>num_records := n\<rparr>"
  "fold account_rec_native rs (g\<lparr>stdout := out\<rparr>) =
     (fold account_rec_native rs g)\<lparr>stdout := out\<rparr>"
  by (induction rs arbitrary: g) (simp_all add: account_rec_native_update)

lemma fold_account_fields:
  "num_records (fold account_rec_native rs g) = num_records g"
  "stdout (fold account_rec_native rs g) = stdout g"
  by (induction rs arbitrary: g) (simp_all add: account_rec_native_counts)

lemma quiet_mod:
  fixes i :: int
  shows "i mod 1000 + 1 + int n < 1000 \<Longrightarrow> (i + 1) mod 1000 = i mod 1000 + 1"
proof -
  assume a: "i mod 1000 + 1 + int n < 1000"
  have "(i + 1) mod 1000 = (i mod 1000 + 1) mod 1000"
    by (simp add: mod_add_left_eq)
  also have "\<dots> = i mod 1000 + 1"
    using a by (intro mod_pos_pos_trivial) simp_all
  finally show ?thesis .
qed

lemma loop_quiet:
  "i mod 1000 + int (length pre) < 1000 \<Longrightarrow>
   (case nlimit of None \<Rightarrow> True | Some n \<Rightarrow> i + int (length pre) < n) \<Longrightarrow>
   loop i nlimit (pre @ rest) g =
     loop (i + int (length pre)) nlimit rest
       ((fold account_rec_native pre g)\<lparr>num_records := num_records g + int (length pre)\<rparr>)"
proof (induction pre arbitrary: i g)
  case Nil
  then show ?case by simp
next
  case (Cons r pre)
  have m: "(i + 1) mod 1000 = i mod 1000 + 1"
    using Cons.prems(1) quiet_mod [of i "length pre"] by simp
  then have nz: "(i + 1) mod 1000 \<noteq> 0"
    using pos_mod_sign [of 1000 i] by simp
  have lim: "\<not> (case nlimit of None \<Rightarrow> False | Some n \<Rightarrow> i + 1 \<ge> n)"
    using Cons.prems(2) by (cases nlimit) auto
  have step: "loop i nlimit ((r # pre) @ rest) g =
      loop (i + 1) nlimit (pre @ rest)
        (account_rec_native r (g\<lparr>num_records := num_records g + 1\<rparr>))"
    using nz lim by (simp add: loop_Cons)
  have p1: "(i + 1) mod 1000 + int (length pre) < 1000"
    using m Cons.prems(1) by simp
  have p2: "case nlimit of None \<Rightarrow> True | Some n \<Rightarrow> i + 1 + int (length pre) < n"
    using Cons.prems(2) by (cases nlimit) auto
  show ?case
    unfolding step Cons.IH [OF p1 p2]
    by (simp add: account_rec_native_update fold_account_update account_rec_native_counts
        add.assoc)
qed


lemma process_file_limited:
  assumes N: "1 \<le> N" "N < 1000" and len: "N - 1 \<le> int (length recs)"
  shows "process_file fname (Some N) recs g =
     (None, (fold account_rec_native (take (nat (N - 1)) recs) g)
        \<lparr>num_records := num_records g + N, stdout := stdout g @ [Processing fname]\<rparr>)"
proof -
  let ?pre = "take (nat (N - 1)) recs"
  let ?g0 = "g\<lparr>stdout := stdout g @ [Processing fname]\<rparr>"
  have l: "int (length ?pre) = N - 1"
    using N len by simp
  have q: "loop 0 (Some N) (?pre @ drop (nat (N - 1)) recs) ?g0 =
      loop (0 + int (length ?pre)) (Some N) (drop (nat (N - 1)) recs)
        ((fold account_rec_native ?pre ?g0)\<lparr>num_records := num_records ?g0 + int (length ?pre)\<rparr>)"
    by (rule loop_quiet) (use N l in simp_all)
  have last: "loop (N - 1) (Some N) rest h = (None, h\<lparr>num_records := num_records h + 1\<rparr>)"
    for rest h
    using N by (cases rest) (simp_all add: loop_Nil loop_Cons)
  show ?thesis
    using q unfolding process_file_def l
    by (simp add: last fold_account_update)
qed

lemma process_file_whole:
  assumes len: "length recs < 999"
  shows "process_file fname None recs g =
     (Some StopIteration, (fold account_rec_native recs g)
        \<lparr>num_records := num_records g + int (length recs) + 1,
         stdout := stdout g @ [Processing fname]\<rparr>)"
proof -
  let ?g0 = "g\<lparr>stdout := stdout g @ [Processing fname]\<rparr>"
  have q: "loop 0 None (recs @ []) ?g0 =
      loop (0 + int (length recs)) None []
        ((fold account_rec_native recs ?g0)\<lparr>num_records := num_records ?g0 + int (length recs)\<rparr>)"
    by (rule loop_quiet) (use len in simp_all)
  have "(int (length recs) + 1) mod 1000 = int (length recs) + 1"
    using len by (intro mod_pos_pos_trivial) simp_all
  then have nz: "(int (length recs) + 1) mod 1000 \<noteq> 0"
    by simp
  show ?thesis
    using q nz unfolding process_file_def
    by (simp add: loop_Nil fold_account_update)
qed


text \<open>
  C4. A file of fewer than 999 records read to its end, in a run of its own: the run ends
  on \<^verbatim>\<open>StopIteration\<close> with every record accounted, and with \<^verbatim>\<open>num_records\<close> one more
  than the number of records in the file, since the counter is incremented before the read
  that finds the end of the stream.
\<close>

theorem total_counts_one_more:
  "length recs < 999 \<Longrightarrow>
   main [(fname, recs)] None =
     (Some StopIteration, (fold account_rec_native recs init)
        \<lparr>num_records := int (length recs) + 1, stdout := [Processing fname]\<rparr>)"
  by (simp add: main_def process_file_whole) (simp add: init_def)

theorem total_counts_one_more_witness:
  "length [transition_snp, transversion_snp] < 999 \<and>
   main [(''a.vcf'', [transition_snp, transversion_snp])] None =
     (Some StopIteration, \<lparr>ti = 1, tv = 1, num_records = 3, stdout = [Processing ''a.vcf'']\<rparr>)"
  using total_counts_one_more [of "[transition_snp, transversion_snp]" "''a.vcf''"]
  by (simp add: init_def account_rec_native_def transition_snp_def transversion_snp_def)

text \<open>
  C6. With \<^verbatim>\<open>--nlimit N\<close>, \<open>1 \<le> N < 1000\<close>, and a file of at least \<open>N\<close> records, the loop
  leaves on its \<open>N\<close>-th iteration before reading: exactly the first \<open>N - 1\<close> records are
  passed to \<^verbatim>\<open>account_rec_native\<close>, while \<^verbatim>\<open>num_records\<close> grows by \<open>N\<close>.
\<close>

theorem nlimit_classifies_one_less:
  "1 \<le> N \<Longrightarrow> N < 1000 \<Longrightarrow> N \<le> int (length recs) \<Longrightarrow>
   process_file fname (Some N) recs g =
     (None, (fold account_rec_native (take (nat (N - 1)) recs) g)
        \<lparr>num_records := num_records g + N, stdout := stdout g @ [Processing fname]\<rparr>) \<and>
   int (length (take (nat (N - 1)) recs)) = N - 1"
  using process_file_limited [of N recs fname g] by simp

theorem nlimit_classifies_one_less_witness:
  "(1::int) \<le> 2 \<and> (2::int) < 1000 \<and>
   2 \<le> int (length [transition_snp, transversion_snp, transition_snp]) \<and>
   process_file ''a.vcf'' (Some 2) [transition_snp, transversion_snp, transition_snp] init =
     (None, \<lparr>ti = 1, tv = 0, num_records = 2, stdout = [Processing ''a.vcf'']\<rparr>)"
  using nlimit_classifies_one_less [of 2 "[transition_snp, transversion_snp, transition_snp]"
      "''a.vcf''" init]
  by (simp add: init_def account_rec_native_def transition_snp_def transversion_snp_def)

subsection \<open>The alternating file\<close>

lemma account_scenario_records:
  "account_rec_native transition_snp g = g\<lparr>ti := ti g + 1\<rparr>"
  "account_rec_native transversion_snp g = g\<lparr>tv := tv g + 1\<rparr>"
  by (simp_all add: account_rec_native_def transition_snp_def transversion_snp_def)

lemma alternating_Suc:
  "alternating (Suc n) = alternating n @ [transition_snp, transversion_snp]"
  unfolding alternating_def
  by (simp only: replicate_Suc replicate_append_same [symmetric] concat_append) simp

lemma length_alternating: "length (alternating n) = 2 * n"
  by (induction n) (simp_all add: alternating_def)

lemma fold_account_alternating:
  "fold account_rec_native (alternating n) g = g\<lparr>ti := ti g + int n, tv := tv g + int n\<rparr>"
proof (induction n arbitrary: g)
  case 0
  then show ?case by (simp add: alternating_def)
next
  case (Suc n)
  have "alternating (Suc n) = [transition_snp, transversion_snp] @ alternating n"
    by (simp add: alternating_def)
  then show ?case
    by (simp add: Suc.IH account_scenario_records add.assoc)
qed

text \<open>
  C7. A file of 1000 SNP records alternating transition and transversion: the progress
  line of iteration 1000 is printed before record 1000 is read, so it shows \<open>ti = 500\<close>,
  \<open>tv = 499\<close> and the ratio \<open>500 / 499\<close>; record 1000 is accounted afterwards, and the next
  iteration ends the run on \<^verbatim>\<open>StopIteration\<close>.
\<close>

theorem snapshot_before_record_1000:
  "process_file ''s3.vcf'' None (alternating 500) init =
     (Some StopIteration,
      \<lparr>ti = 500, tv = 500, num_records = 1001,
       stdout = [Processing ''s3.vcf'', Progress 1000 1000 500 499 (500 / 499), Flush]\<rparr>)"
proof -
  let ?pre = "alternating 499 @ [transition_snp]"
  let ?g0 = "init\<lparr>stdout := stdout init @ [Processing ''s3.vcf'']\<rparr>"
  have "alternating 500 = alternating (Suc 499)"
    by simp
  then have split: "alternating 500 = ?pre @ [transversion_snp]"
    by (simp only: alternating_Suc) simp
  have len: "int (length ?pre) = 999"
    by (simp add: length_alternating)
  have q: "loop 0 None (?pre @ [transversion_snp]) ?g0 =
      loop (0 + int (length ?pre)) None [transversion_snp]
        ((fold account_rec_native ?pre ?g0)\<lparr>num_records := num_records ?g0 + int (length ?pre)\<rparr>)"
    by (rule loop_quiet) (simp_all add: length_alternating)
  have st: "(fold account_rec_native ?pre ?g0)\<lparr>num_records := num_records ?g0 + 999\<rparr> =
      \<lparr>ti = 500, tv = 499, num_records = 999, stdout = [Processing ''s3.vcf'']\<rparr>"
    by (simp add: fold_account_alternating init_def account_scenario_records)
  have "loop 999 None [transversion_snp]
      \<lparr>ti = 500, tv = 499, num_records = 999, stdout = [Processing ''s3.vcf'']\<rparr> =
     (Some StopIteration,
      \<lparr>ti = 500, tv = 500, num_records = 1001,
       stdout = [Processing ''s3.vcf'', Progress 1000 1000 500 499 (500 / 499), Flush]\<rparr>)"
    by (simp add: loop_Cons loop_Nil print_totals_def account_scenario_records)
  with q show ?thesis
    unfolding process_file_def split len st by simp
qed

subsection \<open>The progress lines\<close>




























end
